theory Spec2Isabelle
  imports Main
begin

unbundle bit_operations_syntax

section \<open>Values of the Python run time\<close>

text \<open>
  A Python \<^verbatim>\<open>bytes\<close> object is a list of characters, one character per byte. A Python
  \<^verbatim>\<open>str\<close> is a list of characters as well, each character standing for the code point of
  the same number; the model therefore covers the strings whose code points lie below 256,
  for which \<^verbatim>\<open>str.encode()\<close> (UTF-8, strict) cannot fail.
\<close>

type_synonym bytes = string
type_synonym str = string

definition encode :: "str \<Rightarrow> bytes" where
  "encode s = concat (map (\<lambda>c.
     if (of_char c :: nat) < 128 then [c]
     else [char_of (192 + (of_char c :: nat) div 64), char_of (128 + (of_char c :: nat) mod 64)]) s)"

section \<open>The library functions the signature is built from\<close>

subsection \<open>SHA-1 (\<^verbatim>\<open>hashlib.sha1\<close>)\<close>

text \<open>
  32-bit words are natural numbers below \<open>2 ^ 32\<close>, with the wrap-around of every
  addition and rotation written out.
\<close>

type_synonym u32 = nat

definition add32 :: "u32 \<Rightarrow> u32 \<Rightarrow> u32" where
  "add32 a b = (a + b) mod 4294967296"

definition rotl32 :: "nat \<Rightarrow> u32 \<Rightarrow> u32" where
  "rotl32 n x = (x * 2 ^ n) mod 4294967296 + x div 2 ^ (32 - n)"

definition not32 :: "u32 \<Rightarrow> u32" where
  "not32 x = 4294967295 - x mod 4294967296"

definition word_bytes :: "u32 \<Rightarrow> bytes" where
  "word_bytes w = [char_of (w div 16777216), char_of (w div 65536), char_of (w div 256), char_of w]"

fun be_words :: "bytes \<Rightarrow> u32 list" where
  "be_words (a # b # c # d # r) =
     (((of_char a * 256 + of_char b) * 256 + of_char c) * 256 + of_char d) # be_words r"
| "be_words r = []"

definition sha1_pad :: "bytes \<Rightarrow> bytes" where
  "sha1_pad m =
     m @ [char_of (128 :: nat)] @ replicate ((119 - length m mod 64) mod 64) (char_of (0 :: nat))
       @ word_bytes ((8 * length m) div 4294967296) @ word_bytes (8 * length m)"

definition sha1_f :: "nat \<Rightarrow> u32 \<Rightarrow> u32 \<Rightarrow> u32 \<Rightarrow> u32" where
  "sha1_f t b c d =
     (if t < 20 then (b AND c) OR (not32 b AND d)
      else if t < 40 then b XOR c XOR d
      else if t < 60 then (b AND c) OR (b AND d) OR (c AND d)
      else b XOR c XOR d)"

definition sha1_k :: "nat \<Rightarrow> u32" where
  "sha1_k t =
     (if t < 20 then 0x5A827999 else if t < 40 then 0x6ED9EBA1
      else if t < 60 then 0x8F1BBCDC else 0xCA62C1D6)"

type_synonym sha1_state = "u32 \<times> u32 \<times> u32 \<times> u32 \<times> u32"

fun sha1_step :: "nat \<Rightarrow> u32 \<Rightarrow> sha1_state \<Rightarrow> sha1_state" where
  "sha1_step t w (a, b, c, d, e) =
     (add32 (add32 (add32 (add32 (rotl32 5 a) (sha1_f t b c d)) e) (sha1_k t)) w,
      a, rotl32 30 b, c, d)"

text \<open>
  The eighty rounds of one block. \<open>w\<close> is the window of the sixteen most recent words of
  the message schedule: round \<open>t\<close> consumes its head and appends word \<open>t + 16\<close>.
\<close>

function sha1_rounds :: "nat \<Rightarrow> u32 list \<Rightarrow> sha1_state \<Rightarrow> sha1_state" where
  "sha1_rounds t w s =
     (if t < 80
      then sha1_rounds (t + 1)
             (tl w @ [rotl32 1 (w ! 13 XOR w ! 8 XOR w ! 2 XOR w ! 0)])
             (sha1_step t (hd w) s)
      else s)"
  by pat_completeness auto
termination
  by (relation "measure (\<lambda>(t, w, s). 80 - t)") auto

declare sha1_rounds.simps [simp del]

fun sha1_block :: "sha1_state \<Rightarrow> bytes \<Rightarrow> sha1_state" where
  "sha1_block (h0, h1, h2, h3, h4) blk =
     (case sha1_rounds 0 (be_words blk) (h0, h1, h2, h3, h4) of
        (a, b, c, d, e) \<Rightarrow> (add32 h0 a, add32 h1 b, add32 h2 c, add32 h3 d, add32 h4 e))"

fun sha1_blocks :: "sha1_state \<Rightarrow> bytes \<Rightarrow> sha1_state" where
  "sha1_blocks s [] = s"
| "sha1_blocks s (x # xs) = sha1_blocks (sha1_block s (take 64 (x # xs))) (drop 64 (x # xs))"

definition sha1 :: "bytes \<Rightarrow> bytes" where
  "sha1 m =
     (case sha1_blocks (0x67452301, 0xEFCDAB89, 0x98BADCFE, 0x10325476, 0xC3D2E1F0) (sha1_pad m) of
        (h0, h1, h2, h3, h4) \<Rightarrow> concat (map word_bytes [h0, h1, h2, h3, h4]))"

subsection \<open>HMAC (\<^verbatim>\<open>hmac.new(key, msg, hashlib.sha1).digest()\<close>)\<close>

definition xor_pad :: "nat \<Rightarrow> bytes \<Rightarrow> bytes" where
  "xor_pad p k = map (\<lambda>c. char_of ((of_char c :: nat) XOR p)) k"

definition hmac_sha1 :: "bytes \<Rightarrow> bytes \<Rightarrow> bytes" where
  "hmac_sha1 key msg =
     (let k = (if 64 < length key then sha1 key else key);
          k0 = k @ replicate (64 - length k) (char_of (0 :: nat))
      in sha1 (xor_pad 0x5C k0 @ sha1 (xor_pad 0x36 k0 @ msg)))"

subsection \<open>Base64 (\<^verbatim>\<open>base64.b64encode\<close>)\<close>

definition b64_alphabet :: string where
  "b64_alphabet = ''ABCDEFGHIJKLMNOPQRSTUVWXYZabcdefghijklmnopqrstuvwxyz0123456789+/''"

definition b64_char :: "nat \<Rightarrow> char" where
  "b64_char n = b64_alphabet ! (n mod 64)"

fun b64encode :: "bytes \<Rightarrow> bytes" where
  "b64encode [] = []"
| "b64encode [a] =
     [b64_char (of_char a div 4), b64_char (of_char a * 16), CHR ''='', CHR ''='']"
| "b64encode [a, b] =
     [b64_char (of_char a div 4), b64_char (of_char a * 16 + of_char b div 16),
      b64_char (of_char b * 4), CHR ''='']"
| "b64encode (a # b # c # r) =
     [b64_char (of_char a div 4), b64_char (of_char a * 16 + of_char b div 16),
      b64_char (of_char b * 4 + of_char c div 64), b64_char (of_char c)] @ b64encode r"

subsection \<open>Query strings (\<^verbatim>\<open>urllib.parse.urlencode\<close>)\<close>

text \<open>
  The values that the methods of this class store in a parameter dictionary: a string, an
  integer, or the \<^verbatim>\<open>bytes\<close> object that \<^verbatim>\<open>_generate_signature\<close> returns.
\<close>

datatype pyval = PStr str | PInt int | PBytes bytes

definition digit_char :: "nat \<Rightarrow> char" where
  "digit_char d = ''0123456789'' ! (d mod 10)"

function str_nat :: "nat \<Rightarrow> str" where
  "str_nat n = (if n < 10 then [digit_char n] else str_nat (n div 10) @ [digit_char (n mod 10)])"
  by pat_completeness auto
termination
  by (relation "measure (\<lambda>n. n)") auto

declare str_nat.simps [simp del]

definition str_int :: "int \<Rightarrow> str" where
  "str_int i = (if i < 0 then CHR ''-'' # str_nat (nat (- i)) else str_nat (nat i))"

definition lower_hex :: string where
  "lower_hex = ''0123456789abcdef''"

text \<open>\<^verbatim>\<open>repr\<close> of a \<^verbatim>\<open>bytes\<close> object, which is also what \<^verbatim>\<open>str\<close> gives for it.\<close>

definition repr_byte :: "char \<Rightarrow> char \<Rightarrow> str" where
  "repr_byte q c =
     (if c = q \<or> c = CHR 0x5C then [CHR 0x5C, c]
      else if c = CHR 0x09 then [CHR 0x5C, CHR ''t'']
      else if c = CHR 0x0A then [CHR 0x5C, CHR ''n'']
      else if c = CHR 0x0D then [CHR 0x5C, CHR ''r'']
      else if (of_char c :: nat) < 32 \<or> 127 \<le> (of_char c :: nat)
        then [CHR 0x5C, CHR ''x'', lower_hex ! (of_char c div 16), lower_hex ! (of_char c mod 16)]
      else [c])"

definition bytes_repr :: "bytes \<Rightarrow> str" where
  "bytes_repr b =
     (let q = (if CHR 0x27 \<in> set b \<and> CHR 0x22 \<notin> set b then CHR 0x22 else CHR 0x27)
      in [CHR ''b'', q] @ concat (map (repr_byte q) b) @ [q])"

fun py_str :: "pyval \<Rightarrow> str" where
  "py_str (PStr s) = s"
| "py_str (PInt i) = str_int i"
| "py_str (PBytes b) = bytes_repr b"

text \<open>
  The characters \<^verbatim>\<open>quote\<close> never escapes, as of Python 3.7 (earlier versions escape
  the tilde as well).
\<close>

definition always_safe :: string where
  "always_safe = ''ABCDEFGHIJKLMNOPQRSTUVWXYZabcdefghijklmnopqrstuvwxyz0123456789_.-~''"

definition upper_hex :: string where
  "upper_hex = ''0123456789ABCDEF''"

definition quote_byte :: "string \<Rightarrow> char \<Rightarrow> str" where
  "quote_byte safe c =
     (if c \<in> set (always_safe @ safe) then [c]
      else [CHR ''%'', upper_hex ! (of_char c div 16), upper_hex ! (of_char c mod 16)])"

definition quote_from_bytes :: "bytes \<Rightarrow> string \<Rightarrow> str" where
  "quote_from_bytes bs safe = concat (map (quote_byte safe) bs)"

text \<open>
  \<^verbatim>\<open>quote_plus\<close> on a \<^verbatim>\<open>bytes\<close> argument; on a \<^verbatim>\<open>str\<close> the library encodes
  the string first and continues in the same way.
\<close>

definition quote_plus :: "bytes \<Rightarrow> string \<Rightarrow> str" where
  "quote_plus bs safe =
     (if CHR '' '' \<notin> set bs then quote_from_bytes bs safe
      else map (\<lambda>c. if c = CHR '' '' then CHR ''+'' else c) (quote_from_bytes bs (safe @ '' '')))"

fun join :: "string \<Rightarrow> string list \<Rightarrow> string" where
  "join sep [] = []"
| "join sep [x] = x"
| "join sep (x # y # ys) = x @ sep @ join sep (y # ys)"

text \<open>
  A dictionary with string keys, in insertion order, as \<^verbatim>\<open>urlencode\<close> iterates over it.
  Assigning to a key that is present replaces its value in place; a new key goes to the end.
\<close>

type_synonym params = "(str \<times> pyval) list"

fun dict_set :: "params \<Rightarrow> str \<Rightarrow> pyval \<Rightarrow> params" where
  "dict_set [] k v = [(k, v)]"
| "dict_set ((k', v') # kvs) k v =
     (if k' = k then (k, v) # kvs else (k', v') # dict_set kvs k v)"

text \<open>
  One \<^verbatim>\<open>key=value\<close> pair of \<^verbatim>\<open>urlencode\<close>: a \<^verbatim>\<open>bytes\<close> value is quoted as it is,
  any other value through \<^verbatim>\<open>str\<close>.
\<close>

fun urlencode_item :: "str \<times> pyval \<Rightarrow> str" where
  "urlencode_item (k, PBytes b) = quote_plus (encode k) [] @ ''='' @ quote_plus b []"
| "urlencode_item (k, v) = quote_plus (encode k) [] @ ''='' @ quote_plus (encode (py_str v)) []"

definition urlencode :: "params \<Rightarrow> str" where
  "urlencode query = join ''&'' (map urlencode_item query)"

section \<open>The client class\<close>

record SinglePlatformLocationAPI =
  client_id :: str
  client_secret :: str

definition HOST :: str where
  "HOST = ''https://publishing-api.singleplatform.com''"

definition generate_signature :: "SinglePlatformLocationAPI \<Rightarrow> str \<Rightarrow> bytes" where
  "generate_signature self uri =
     (let key = encode (client_secret self);
          path = encode uri;
          data = hmac_sha1 key path
      in b64encode data)"

text \<open>
  \<^verbatim>\<open>_generate_url\<close> assigns to \<^verbatim>\<open>params["signature"]\<close> and prints the URL: the model
  returns the URL together with the dictionary as the call leaves it and the printed line.
\<close>

definition generate_url :: "SinglePlatformLocationAPI \<Rightarrow> str \<Rightarrow> params \<Rightarrow> str \<times> params \<times> str" where
  "generate_url self path params =
     (let uri = path @ ''?'' @ urlencode params;
          params' = dict_set params ''signature'' (PBytes (generate_signature self uri));
          url = HOST @ path @ ''?'' @ urlencode params'
      in (url, params', ''generated url: '' @ url))"

section \<open>JSON documents and the location hierarchy\<close>

text \<open>
  What \<^verbatim>\<open>response.json()\<close> returns. An object is the list of its members in document
  order; a key is looked up with \<^const>\<open>map_of\<close>. Numbers are kept as integers: nothing in
  this class looks at one.
\<close>

datatype jsonval =
    JNull
  | JBool bool
  | JNum int
  | JStr str
  | JArr "jsonval list"
  | JObj "(str \<times> jsonval) list"

datatype pyerr =
    ValueError str
  | AttributeError
  | TypeError
  | JSONDecodeError
  | RequestException

lemma size_map_of:
  "map_of d k = Some v \<Longrightarrow> size v < size (JObj d)"
proof (induction d)
  case Nil
  then show ?case by simp
next
  case (Cons p d)
  then show ?case by (cases p) (auto split: if_splits)
qed

text \<open>
  \<^verbatim>\<open>_recurse_locations\<close>. \<open>extend_locations\<close> is its \<^verbatim>\<open>for\<close> loop, with the list
  \<^verbatim>\<open>locations\<close> as accumulator. A parent without a \<^verbatim>\<open>get\<close> method raises
  \<^verbatim>\<open>AttributeError\<close>, and so does a child taken from a string or from the keys of an
  object; a \<^verbatim>\<open>nodes\<close> value that cannot be iterated raises \<^verbatim>\<open>TypeError\<close>.
\<close>

function (sequential) recurse_locations :: "jsonval \<Rightarrow> pyerr + jsonval list"
  and extend_locations :: "jsonval list \<Rightarrow> jsonval list \<Rightarrow> pyerr + jsonval list"
where
  "recurse_locations (JObj d) =
     (if map_of d ''node_type'' = Some (JStr ''location'') then Inr [JObj d]
      else (case map_of d ''nodes'' of
              None \<Rightarrow> Inr []
            | Some (JArr cs) \<Rightarrow> extend_locations cs []
            | Some (JStr s) \<Rightarrow> (if s = [] then Inr [] else Inl AttributeError)
            | Some (JObj kvs) \<Rightarrow> (if kvs = [] then Inr [] else Inl AttributeError)
            | Some _ \<Rightarrow> Inl TypeError))"
| "recurse_locations _ = Inl AttributeError"
| "extend_locations [] locations = Inr locations"
| "extend_locations (child # rest) locations =
     (case recurse_locations child of
        Inl e \<Rightarrow> Inl e
      | Inr ls \<Rightarrow> extend_locations rest (locations @ ls))"
  by pat_completeness auto
termination
proof (relation "measure (\<lambda>x. case x of Inl t \<Rightarrow> 2 * size t
                                      | Inr (cs, acc) \<Rightarrow> 2 * size_list size cs + 1)")
  show "wf (measure (\<lambda>x. case x of Inl t \<Rightarrow> 2 * size t
                                   | Inr (cs, acc) \<Rightarrow> 2 * size_list size cs + 1))"
    by simp
next
  fix d :: "(str \<times> jsonval) list" and x2 x5
  assume "map_of d ''nodes'' = Some x2" and "x2 = JArr x5"
  then have "size (JArr x5) < size (JObj d)"
    using size_map_of by blast
  then show "(Inr (x5, []), Inl (JObj d))
      \<in> measure (\<lambda>x. case x of Inl t \<Rightarrow> 2 * size t
                              | Inr (cs, acc) \<Rightarrow> 2 * size_list size cs + 1)"
    by simp
qed simp_all

section \<open>HTTP\<close>

text \<open>
  \<^verbatim>\<open>requests.get\<close> is the environment: it maps the request to a response or to the
  exception it raises. A response carries its status code, its body text (\<^verbatim>\<open>response.text\<close>) and what its
  \<^verbatim>\<open>json()\<close> method yields for that body.
\<close>

record request =
  url :: str
  headers :: "(str \<times> str) list"

record response =
  status_code :: int
  resp_text :: str
  json :: "pyerr + jsonval"

type_synonym http = "request \<Rightarrow> pyerr + response"

definition managed_locations :: "http \<Rightarrow> str \<Rightarrow> str \<Rightarrow> (pyerr + jsonval list) \<times> request list" where
  "managed_locations get business_id cookie =
     (let req = \<lparr>url = ''https://my2.singleplatform.com/hierarchy/list/business/'' @ business_id @ ''/'',
                 headers = [(''Cookie'', cookie)]\<rparr>
      in (case get req of
            Inl e \<Rightarrow> Inl e
          | Inr resp \<Rightarrow>
              (case json resp of
                 Inl e \<Rightarrow> Inl e
               | Inr (JObj d) \<Rightarrow>
                   recurse_locations (case map_of d ''root_tier'' of None \<Rightarrow> JObj [] | Some data \<Rightarrow> data)
               | Inr _ \<Rightarrow> Inl AttributeError),
          [req]))"

text \<open>
  The last five lines of \<^verbatim>\<open>summary\<close>, \<^verbatim>\<open>menu\<close> and \<^verbatim>\<open>photos\<close>, which are the same
  in the three methods: one GET, then the status check. The result comes with the requests
  that were issued.
\<close>

definition get_checked :: "http \<Rightarrow> str \<Rightarrow> (pyerr + jsonval) \<times> request list" where
  "get_checked get u =
     (let req = \<lparr>url = u, headers = []\<rparr>
      in (case get req of
            Inl e \<Rightarrow> Inl e
          | Inr resp \<Rightarrow>
              (if status_code resp = 200 then json resp else Inl (ValueError (resp_text resp))),
          [req]))"

datatype SinglePlatformImageType = INTERIOR | EXTERIOR | ITEM | LOGO | UNCATEGORIZED

fun image_type_value :: "SinglePlatformImageType \<Rightarrow> str" where
  "image_type_value INTERIOR = ''interior''"
| "image_type_value EXTERIOR = ''exterior''"
| "image_type_value ITEM = ''item''"
| "image_type_value LOGO = ''logo''"
| "image_type_value UNCATEGORIZED = ''uncategorized''"

text \<open>
  The three public methods return the outcome, the requests issued and the lines printed.
\<close>

type_synonym outcome = "(pyerr + jsonval) \<times> request list \<times> str list"

definition summary :: "http \<Rightarrow> SinglePlatformLocationAPI \<Rightarrow> str \<Rightarrow> bool \<Rightarrow> outcome" where
  "summary get self location_id complete =
     (let flag = (if complete then ''all/'' else []);
          path = ''/locations/'' @ location_id @ ''/'' @ flag;
          params = [(''client'', PStr (client_id self))];
          (u, params', line) = generate_url self path params;
          (res, reqs) = get_checked get u
      in (res, reqs, [line]))"

definition menu :: "http \<Rightarrow> SinglePlatformLocationAPI \<Rightarrow> str \<Rightarrow> bool \<Rightarrow> outcome" where
  "menu get self location_id short =
     (let path = ''/locations/'' @ location_id @ ''/menus/'';
          params = [(''client'', PStr (client_id self))];
          params = (if short then dict_set params ''format'' (PStr ''short'') else params);
          (u, params', line) = generate_url self path params;
          (res, reqs) = get_checked get u
      in (res, reqs, [line]))"

definition photos ::
  "http \<Rightarrow> SinglePlatformLocationAPI \<Rightarrow> str \<Rightarrow> int option \<Rightarrow> int option
     \<Rightarrow> SinglePlatformImageType option \<Rightarrow> outcome" where
  "photos get self location_id max_height max_width image_type =
     (let path = ''/locations/'' @ location_id @ ''/photos/'';
          params = [(''client'', PStr (client_id self))];
          params = (case max_height of
                      Some h \<Rightarrow> if h \<noteq> 0 then dict_set params ''height'' (PInt h) else params
                    | None \<Rightarrow> params);
          params = (case max_width of
                      Some w \<Rightarrow> if w \<noteq> 0 then dict_set params ''width'' (PInt w) else params
                    | None \<Rightarrow> params);
          params = (case image_type of
                      Some ty \<Rightarrow> dict_set params ''type'' (PStr (image_type_value ty))
                    | None \<Rightarrow> params);
          (u, params', line) = generate_url self path params;
          (res, reqs) = get_checked get u
      in (res, reqs, [line]))"

section \<open>Notions used to state the properties\<close>

subsection \<open>Trees of nodes\<close>

definition is_location :: "jsonval \<Rightarrow> bool" where
  "is_location t = (case t of JObj d \<Rightarrow> map_of d ''node_type'' = Some (JStr ''location'') | _ \<Rightarrow> False)"

definition children :: "jsonval \<Rightarrow> jsonval list" where
  "children t =
     (case t of
        JObj d \<Rightarrow> (case map_of d ''nodes'' of Some (JArr cs) \<Rightarrow> cs | _ \<Rightarrow> [])
      | _ \<Rightarrow> [])"

lemma size_children: "c \<in> set (children t) \<Longrightarrow> size c < size t"
proof (cases t)
  case (JObj d)
  assume c: "c \<in> set (children t)"
  have "\<exists>cs. map_of d ''nodes'' = Some (JArr cs) \<and> c \<in> set cs"
  proof (cases "map_of d ''nodes''")
    case None
    with c JObj show ?thesis by (simp add: children_def)
  next
    case (Some v)
    with c JObj show ?thesis by (cases v) (simp_all add: children_def)
  qed
  then obtain cs where cs: "map_of d ''nodes'' = Some (JArr cs)" and mem: "c \<in> set cs"
    by blast
  have "size c < size (JArr cs)"
    using mem by (induction cs) auto
  also have "\<dots> < size (JObj d)"
    using cs by (rule size_map_of)
  finally show ?thesis using JObj by simp
qed (simp_all add: children_def)

text \<open>
  A tree in the sense of the specification: a dictionary whose \<^verbatim>\<open>nodes\<close> member, when
  present, is a list of such dictionaries. The \<^verbatim>\<open>node_type\<close> member is optional and
  may hold anything.
\<close>

function tree :: "jsonval \<Rightarrow> bool" where
  "tree t =
     (case t of
        JObj d \<Rightarrow>
          (case map_of d ''nodes'' of
             None \<Rightarrow> True
           | Some (JArr cs) \<Rightarrow> (\<forall>c \<in> set (children t). tree c)
           | Some _ \<Rightarrow> False)
      | _ \<Rightarrow> False)"
  by pat_completeness auto
termination
  by (relation "measure size") (auto dest: size_children)

declare tree.simps [simp del]

text \<open>All nodes of a tree, parents before children, children from left to right.\<close>

function tree_nodes :: "jsonval \<Rightarrow> jsonval list" where
  "tree_nodes t = t # concat (map tree_nodes (children t))"
  by pat_completeness auto
termination
  by (relation "measure size") (auto dest: size_children)

declare tree_nodes.simps [simp del]

text \<open>The result as the specification words it: every node of type location, in that order.\<close>

definition all_locations :: "jsonval \<Rightarrow> jsonval list" where
  "all_locations t = filter is_location (tree_nodes t)"

text \<open>
  The same walk, each node paired with the flag \<open>below\<close>: whether one of its proper
  ancestors is a location.
\<close>

function walk :: "bool \<Rightarrow> jsonval \<Rightarrow> (bool \<times> jsonval) list" where
  "walk below t = (below, t) # concat (map (walk (below \<or> is_location t)) (children t))"
  by pat_completeness auto
termination
  by (relation "measure (\<lambda>(below, t). size t)") (auto dest: size_children)

declare walk.simps [simp del]

definition outer_locations :: "jsonval \<Rightarrow> jsonval list" where
  "outer_locations t = map snd (filter (\<lambda>(below, n). \<not> below \<and> is_location n) (walk False t))"

text \<open>
  The recursive calls of \<^verbatim>\<open>_recurse_locations\<close>: from a parent that is not a location to
  an element of its \<^verbatim>\<open>nodes\<close> list.
\<close>

inductive recursive_call :: "jsonval \<Rightarrow> jsonval \<Rightarrow> bool" where
  "map_of d ''node_type'' \<noteq> Some (JStr ''location'') \<Longrightarrow> map_of d ''nodes'' = Some (JArr cs) \<Longrightarrow>
   c \<in> set cs \<Longrightarrow> recursive_call (JObj d) c"

subsection \<open>The query string if values were formatted with \<^verbatim>\<open>str\<close>\<close>

text \<open>
  \<^verbatim>\<open>urlencode\<close> as it would be if it passed every value through \<^verbatim>\<open>str\<close>, a
  \<^verbatim>\<open>bytes\<close> value included.
\<close>

definition urlencode_via_str :: "params \<Rightarrow> str" where
  "urlencode_via_str query =
     join ''&'' (map (\<lambda>(k, v). quote_plus (encode k) [] @ ''='' @ quote_plus (encode (py_str v)) []) query)"

text \<open>The measure that decreases along the calls of \<^verbatim>\<open>_recurse_locations\<close> and its loop.\<close>

definition call_size :: "jsonval + jsonval list \<times> jsonval list \<Rightarrow> nat" where
  "call_size x = (case x of Inl t \<Rightarrow> 2 * size t | Inr (cs, acc) \<Rightarrow> 2 * size_list size cs + 1)"

text \<open>How a character of Base64 text appears in a query string.\<close>

definition b64_escape :: "char \<Rightarrow> str" where
  "b64_escape c =
     (if c = CHR ''+'' then ''%2B'' else if c = CHR ''/'' then ''%2F''
      else if c = CHR ''='' then ''%3D'' else [c])"

subsection \<open>Example data\<close>

definition nested_example :: jsonval where
  "nested_example =
     JObj [(''node_type'', JStr ''location''), (''id'', JNum 1),
           (''nodes'', JArr [JObj [(''node_type'', JStr ''location''), (''id'', JNum 2)]])]"

definition hierarchy_example :: jsonval where
  "hierarchy_example =
     JObj [(''node_type'', JStr ''tier''),
           (''nodes'', JArr [JObj [(''node_type'', JStr ''location''), (''id'', JNum 1)],
                            JObj [(''nodes'', JArr [JObj [(''node_type'', JStr ''location''), (''id'', JNum 2)]])]])]"

definition root_example :: http where
  "root_example = (\<lambda>req. Inr \<lparr>status_code = 200, resp_text = [],
                                 json = Inr (JObj [(''root_tier'', nested_example)])\<rparr>)"

definition tier_example :: http where
  "tier_example = (\<lambda>req.
     if req = \<lparr>url = ''https://my2.singleplatform.com/hierarchy/list/business/42/'',
               headers = [(''Cookie'', ''sessionid=1'')]\<rparr>
     then Inr \<lparr>status_code = 200, resp_text = [], json = Inr (JObj [(''root_tier'', hierarchy_example)])\<rparr>
     else Inr \<lparr>status_code = 200, resp_text = [], json = Inr (JObj [(''count'', JNum 0)])\<rparr>)"

definition tier_nested_example :: http where
  "tier_nested_example =
     (\<lambda>req. Inr \<lparr>status_code = 200, resp_text = [],
                  json = Inr (JObj [(''root_tier'',
                    JObj [(''node_type'', JStr ''tier''), (''nodes'', JArr [nested_example])])])\<rparr>)"

definition api_example :: SinglePlatformLocationAPI where
  "api_example = \<lparr>client_id = ''id'', client_secret = ''secret''\<rparr>"

definition not_found_example :: http where
  "not_found_example =
     (\<lambda>req. Inr \<lparr>status_code = 404, resp_text = ''Not Found'', json = Inl JSONDecodeError\<rparr>)"

definition ok_example :: http where
  "ok_example =
     (\<lambda>req. Inr \<lparr>status_code = 200, resp_text = ''{}'',
                  json = Inr (JObj [])\<rparr>)"

section \<open>Properties\<close>

lemma walk_below_aux: "(b, n) \<in> set (walk u t) \<Longrightarrow> u \<Longrightarrow> b"
proof (induction u t arbitrary: b n rule: walk.induct)
  case (1 below t)
  from "1.prems" show ?case
    unfolding walk.simps [of below t]
    using "1.IH" by auto
qed

lemma walk_below: "(b, n) \<in> set (walk True t) \<Longrightarrow> b"
  using walk_below_aux by blast

lemma outer_locations_unfold:
  "outer_locations t = (if is_location t then [t] else concat (map outer_locations (children t)))"
proof (cases "is_location t")
  case True
  have "filter (\<lambda>(below, n). \<not> below \<and> is_location n) (walk True c) = []" for c
    by (auto simp: filter_empty_conv dest: walk_below)
  then show ?thesis
    using True unfolding outer_locations_def walk.simps [of False t]
    by (simp add: filter_concat comp_def)
next
  case False
  then show ?thesis
    unfolding outer_locations_def walk.simps [of False t]
    by (simp add: filter_concat map_concat comp_def)
qed

lemma is_location_JObj: "is_location (JObj d) = (map_of d ''node_type'' = Some (JStr ''location''))"
  by (simp add: is_location_def)

lemma recurse_outer:
  "recurse_locations t = Inr ls \<Longrightarrow> ls = outer_locations t"
  "extend_locations cs acc = Inr ls' \<Longrightarrow> ls' = acc @ concat (map outer_locations cs)"
proof (induction t and cs acc arbitrary: ls and ls' rule: recurse_locations_extend_locations.induct)
  case (1 d)
  show ?case
  proof (cases "map_of d ''node_type'' = Some (JStr ''location'')")
    case True
    with "1.prems" show ?thesis
      by (simp add: outer_locations_unfold [of "JObj d"] is_location_JObj)
  next
    case False
    then have o: "outer_locations (JObj d) = concat (map outer_locations (children (JObj d)))"
      by (simp add: outer_locations_unfold [of "JObj d"] is_location_JObj)
    show ?thesis
    proof (cases "map_of d ''nodes''")
      case None
      with False "1.prems" o show ?thesis by (simp add: children_def)
    next
      case (Some v)
      show ?thesis
      proof (cases v)
        case (JArr cs)
        with False Some "1.prems" have "extend_locations cs [] = Inr ls" by simp
        from "1.IH" [OF False Some JArr this] have "ls = concat (map outer_locations cs)" by simp
        with o Some JArr show ?thesis by (simp add: children_def)
      qed (use False Some "1.prems" o in \<open>auto simp: children_def split: if_splits\<close>)
    qed
  qed
qed (auto split: sum.splits)


lemma tree_JObj:
  "tree (JObj d) =
     (case map_of d ''nodes'' of
        None \<Rightarrow> True
      | Some (JArr cs) \<Rightarrow> (\<forall>c \<in> set cs. tree c)
      | Some _ \<Rightarrow> False)"
  by (subst tree.simps) (simp add: children_def split: option.splits jsonval.splits)

lemma tree_is_JObj: "tree t \<Longrightarrow> \<exists>d. t = JObj d"
  by (subst (asm) tree.simps) (simp split: jsonval.splits)

lemma recurse_tree:
  "tree t \<Longrightarrow> \<exists>ls. recurse_locations t = Inr ls"
  "(\<forall>c \<in> set cs. tree c) \<Longrightarrow> \<exists>ls. extend_locations cs acc = Inr ls"
proof (induction t and cs acc rule: recurse_locations_extend_locations.induct)
  case (1 d)
  show ?case
  proof (cases "map_of d ''node_type'' = Some (JStr ''location'')")
    case True
    then show ?thesis by simp
  next
    case False
    show ?thesis
    proof (cases "map_of d ''nodes''")
      case None
      with False show ?thesis by simp
    next
      case (Some v)
      show ?thesis
      proof (cases v)
        case (JArr cs)
        with Some "1.prems" have "\<forall>c \<in> set cs. tree c" by (simp add: tree_JObj)
        from "1.IH" [OF False Some JArr this] False Some JArr show ?thesis by simp
      qed (use Some "1.prems" in \<open>simp_all add: tree_JObj\<close>)
    qed
  qed
next
  case (4 child rest locations)
  from "4.prems" have "tree child" by simp
  from "4.IH"(1) [OF this] obtain ls where ls: "recurse_locations child = Inr ls" by blast
  from "4.prems" have "\<forall>c \<in> set rest. tree c" by simp
  from "4.IH"(2) [OF ls this] ls show ?case by simp
qed (simp_all add: tree.simps)

lemma map_snd_walk: "map snd (walk b t) = tree_nodes t"
proof (induction b t rule: walk.induct)
  case (1 below t)
  have h: "map (\<lambda>c. map snd (walk (below \<or> is_location t) c)) (children t) = map tree_nodes (children t)"
    by (rule map_cong) (simp_all add: "1.IH")
  have "map snd (walk below t)
      = t # concat (map (\<lambda>c. map snd (walk (below \<or> is_location t) c)) (children t))"
    by (subst walk.simps) (simp add: map_concat comp_def)
  also have "\<dots> = t # concat (map tree_nodes (children t))"
    by (simp only: h)
  also have "\<dots> = tree_nodes t"
    by (rule tree_nodes.simps [symmetric])
  finally show ?case .
qed

lemma all_locations_walk:
  "all_locations t = map snd (filter (\<lambda>(below, n). is_location n) (walk False t))"
  by (simp add: all_locations_def flip: map_snd_walk [of False t])
     (simp add: filter_map comp_def case_prod_unfold)

lemma outer_eq_all:
  assumes "\<forall>(below, n) \<in> set (walk False t). is_location n \<longrightarrow> \<not> below"
  shows "outer_locations t = all_locations t"
proof -
  have "filter (\<lambda>(below, n). \<not> below \<and> is_location n) (walk False t)
      = filter (\<lambda>(below, n). is_location n) (walk False t)"
    using assms by (intro filter_cong) auto
  then show ?thesis by (simp add: outer_locations_def all_locations_walk)
qed

lemmas tree_eval = tree_JObj walk.simps tree_nodes.simps children_def is_location_def
  outer_locations_def all_locations_def

text \<open>
  Claim C3, as stated: on every tree \<^verbatim>\<open>_recurse_locations\<close> returns all nodes whose
  \<^verbatim>\<open>node_type\<close> is \<^verbatim>\<open>location\<close>. It fails on a location that holds another
  location in its \<^verbatim>\<open>nodes\<close> list: only the outer one is returned.
\<close>

theorem all_locations_counterexample:
  "tree nested_example \<and> recurse_locations nested_example \<noteq> Inr (all_locations nested_example)"
  by (simp add: nested_example_def tree_eval)

text \<open>
  Claim C3, amended: on every tree \<^verbatim>\<open>_recurse_locations\<close> returns, in depth-first
  order, exactly the location nodes that do not lie beneath another location node (the walk
  does not descend into a location). Where no location lies beneath another one these are
  all location nodes of the tree. A dictionary with neither \<^verbatim>\<open>node_type\<close> nor
  \<^verbatim>\<open>nodes\<close> yields the empty list.
\<close>

theorem recurse_locations_outer:
  "tree t \<longrightarrow>
     recurse_locations t = Inr (outer_locations t) \<and>
     ((\<forall>(below, n) \<in> set (walk False t). is_location n \<longrightarrow> \<not> below) \<longrightarrow>
        recurse_locations t = Inr (all_locations t)) \<and>
     (\<forall>d. t = JObj d \<and> map_of d ''node_type'' = None \<and> map_of d ''nodes'' = None \<longrightarrow>
        recurse_locations t = Inr [])"
proof (intro impI conjI allI)
  assume t: "tree t"
  then obtain ls where "recurse_locations t = Inr ls"
    using recurse_tree(1) by blast
  then show r: "recurse_locations t = Inr (outer_locations t)"
    using recurse_outer(1) by blast
  show "recurse_locations t = Inr (all_locations t)"
    if "\<forall>(below, n) \<in> set (walk False t). is_location n \<longrightarrow> \<not> below"
    using r outer_eq_all [OF that] by simp
  show "recurse_locations t = Inr []"
    if "t = JObj d \<and> map_of d ''node_type'' = None \<and> map_of d ''nodes'' = None" for d
    using that by simp
qed

theorem recurse_locations_outer_witness:
  "tree hierarchy_example \<and>
   recurse_locations hierarchy_example =
     Inr [JObj [(''node_type'', JStr ''location''), (''id'', JNum 1)],
          JObj [(''node_type'', JStr ''location''), (''id'', JNum 2)]] \<and>
   recurse_locations hierarchy_example = Inr (all_locations hierarchy_example) \<and>
   recurse_locations (JObj []) = Inr []"
proof -
  have t: "tree hierarchy_example"
    by (simp add: hierarchy_example_def tree_eval)
  have n: "\<forall>(below, n) \<in> set (walk False hierarchy_example). is_location n \<longrightarrow> \<not> below"
    by (simp add: hierarchy_example_def tree_eval)
  have o: "outer_locations hierarchy_example =
     [JObj [(''node_type'', JStr ''location''), (''id'', JNum 1)],
      JObj [(''node_type'', JStr ''location''), (''id'', JNum 2)]]"
    by (simp add: hierarchy_example_def tree_eval)
  have e: "tree (JObj [])"
    by (simp add: tree_eval)
  show ?thesis
    using recurse_locations_outer [of hierarchy_example] recurse_locations_outer [of "JObj []"] t n o e
    by auto
qed


text \<open>
  Claim C10: for a node whose \<^verbatim>\<open>node_type\<close> is \<^verbatim>\<open>location\<close> the result is the
  one-element list of that node, whatever its \<^verbatim>\<open>nodes\<close> member holds; so a result of
  \<^verbatim>\<open>_recurse_locations\<close> consists of the location nodes that are not beneath another
  location, and so does every result of \<^verbatim>\<open>managed_locations\<close>, taken over the
  \<^verbatim>\<open>root_tier\<close> member of the response: a location nested beneath a location is in
  neither.
\<close>

theorem location_node_is_leaf:
  "(is_location p \<longrightarrow> recurse_locations p = Inr [p]) \<and>
   (recurse_locations t = Inr ls \<longrightarrow>
      ls = map snd (filter (\<lambda>(below, n). \<not> below \<and> is_location n) (walk False t))) \<and>
   (get \<lparr>url = ''https://my2.singleplatform.com/hierarchy/list/business/'' @ business_id @ ''/'',
         headers = [(''Cookie'', cookie)]\<rparr> = Inr resp \<and>
    json resp = Inr (JObj d) \<and> map_of d ''root_tier'' = Some root \<and> is_location root \<longrightarrow>
      fst (managed_locations get business_id cookie) = Inr [root]) \<and>
   (fst (managed_locations get business_id cookie) = Inr ls' \<longrightarrow>
      (\<exists>resp' d'.
         get \<lparr>url = ''https://my2.singleplatform.com/hierarchy/list/business/'' @ business_id @ ''/'',
              headers = [(''Cookie'', cookie)]\<rparr> = Inr resp' \<and>
         json resp' = Inr (JObj d') \<and>
         ls' = map snd (filter (\<lambda>(below, n). \<not> below \<and> is_location n)
                 (walk False (case map_of d' ''root_tier'' of None \<Rightarrow> JObj [] | Some data \<Rightarrow> data)))))"
proof (intro conjI impI)
  assume "is_location p"
  then show p: "recurse_locations p = Inr [p]"
    by (cases p) (simp_all add: is_location_def)
next
  assume "recurse_locations t = Inr ls"
  then show "ls = map snd (filter (\<lambda>(below, n). \<not> below \<and> is_location n) (walk False t))"
    using recurse_outer(1) by (simp add: outer_locations_def)
next
  assume a: "get \<lparr>url = ''https://my2.singleplatform.com/hierarchy/list/business/'' @ business_id @ ''/'',
         headers = [(''Cookie'', cookie)]\<rparr> = Inr resp \<and>
    json resp = Inr (JObj d) \<and> map_of d ''root_tier'' = Some root \<and> is_location root"
  then have "recurse_locations root = Inr [root]"
    by (cases root) (simp_all add: is_location_def)
  with a show "fst (managed_locations get business_id cookie) = Inr [root]"
    by (simp add: managed_locations_def Let_def)
next
  let ?req = "\<lparr>url = ''https://my2.singleplatform.com/hierarchy/list/business/'' @ business_id @ ''/'',
         headers = [(''Cookie'', cookie)]\<rparr>"
  assume r: "fst (managed_locations get business_id cookie) = Inr ls'"
  then obtain resp' where g: "get ?req = Inr resp'"
    by (cases "get ?req") (simp_all add: managed_locations_def Let_def)
  with r obtain j where j: "json resp' = Inr j"
    by (cases "json resp'") (simp_all add: managed_locations_def Let_def)
  with r g obtain d' where d: "j = JObj d'"
    by (cases j) (simp_all add: managed_locations_def Let_def)
  let ?data = "case map_of d' ''root_tier'' of None \<Rightarrow> JObj [] | Some data \<Rightarrow> data"
  from r g j d have "recurse_locations ?data = Inr ls'"
    by (simp add: managed_locations_def Let_def)
  then have "ls' = outer_locations ?data"
    by (rule recurse_outer(1))
  with g j d show "\<exists>resp' d'. get ?req = Inr resp' \<and> json resp' = Inr (JObj d') \<and>
      ls' = map snd (filter (\<lambda>(below, n). \<not> below \<and> is_location n)
              (walk False (case map_of d' ''root_tier'' of None \<Rightarrow> JObj [] | Some data \<Rightarrow> data)))"
    by (auto simp: outer_locations_def)
qed

theorem location_node_is_leaf_witness:
  "is_location nested_example \<and>
   recurse_locations nested_example = Inr [nested_example] \<and>
   (True, JObj [(''node_type'', JStr ''location''), (''id'', JNum 2)]) \<in> set (walk False nested_example) \<and>
   map snd (filter (\<lambda>(below, n). \<not> below \<and> is_location n) (walk False nested_example)) = [nested_example] \<and>
   fst (managed_locations root_example ''42'' ''sessionid=1'') = Inr [nested_example] \<and>
   fst (managed_locations tier_nested_example ''42'' ''sessionid=1'') = Inr [nested_example] \<and>
   (True, JObj [(''node_type'', JStr ''location''), (''id'', JNum 2)])
     \<in> set (walk False (JObj [(''node_type'', JStr ''tier''), (''nodes'', JArr [nested_example])]))"
proof -
  have l: "is_location nested_example"
    by (simp add: nested_example_def is_location_def)
  have w: "(True, JObj [(''node_type'', JStr ''location''), (''id'', JNum 2)]) \<in> set (walk False nested_example)"
    by (simp add: nested_example_def tree_eval)
  have w': "(True, JObj [(''node_type'', JStr ''location''), (''id'', JNum 2)])
     \<in> set (walk False (JObj [(''node_type'', JStr ''tier''), (''nodes'', JArr [nested_example])]))"
    by (simp add: nested_example_def tree_eval)
  note inst = location_node_is_leaf [of nested_example nested_example "[nested_example]"
      root_example "''42''" "''sessionid=1''"
      "\<lparr>status_code = 200, resp_text = [], json = Inr (JObj [(''root_tier'', nested_example)])\<rparr>"
      "[(''root_tier'', nested_example)]" nested_example]
  from inst l have r: "recurse_locations nested_example = Inr [nested_example]"
    by blast
  from inst r have f: "[nested_example] =
      map snd (filter (\<lambda>(below, n). \<not> below \<and> is_location n) (walk False nested_example))"
    by blast
  from inst l have m: "fst (managed_locations root_example ''42'' ''sessionid=1'') = Inr [nested_example]"
    by (simp add: root_example_def)
  have t: "fst (managed_locations tier_nested_example ''42'' ''sessionid=1'') = Inr [nested_example]"
    by (simp add: managed_locations_def Let_def tier_nested_example_def nested_example_def)
  from l w w' r f m t show ?thesis by simp
qed

lemma rel_call_size:
  assumes "recurse_locations_extend_locations_rel x y"
  shows "call_size x < call_size y"
  using assms
proof cases
  case (1 d x2 x5)
  then have "size (JArr x5) < size (JObj d)"
    using size_map_of by blast
  with 1 show ?thesis by (simp add: call_size_def)
qed (simp_all add: call_size_def)

lemma wf_rel: "wfP recurse_locations_extend_locations_rel"
proof -
  have "{(x, y). recurse_locations_extend_locations_rel x y} \<subseteq> measure call_size"
    using rel_call_size by auto
  then have "wf {(x, y). recurse_locations_extend_locations_rel x y}"
    by (rule wf_subset [OF wf_measure])
  then show ?thesis by (simp add: wfp_def)
qed

lemma dom_all: "recurse_locations_extend_locations_dom x"
  using wf_rel by (simp add: wfp_iff_accp)

lemma recursive_call_children:
  "recursive_call p c \<longleftrightarrow> c \<in> set (children p) \<and> \<not> is_location p"
proof
  assume "recursive_call p c"
  then show "c \<in> set (children p) \<and> \<not> is_location p"
    by cases (simp add: children_def is_location_def)
next
  assume a: "c \<in> set (children p) \<and> \<not> is_location p"
  show "recursive_call p c"
  proof (cases p)
    case (JObj d)
    have "\<exists>cs. map_of d ''nodes'' = Some (JArr cs) \<and> c \<in> set cs"
    proof (cases "map_of d ''nodes''")
      case None
      with a JObj show ?thesis by (simp add: children_def)
    next
      case (Some v)
      with a JObj show ?thesis by (cases v) (simp_all add: children_def)
    qed
    then obtain cs where "map_of d ''nodes'' = Some (JArr cs)" "c \<in> set cs" by blast
    moreover have "map_of d ''node_type'' \<noteq> Some (JStr ''location'')"
      using a JObj by (simp add: is_location_def)
    ultimately show ?thesis
      unfolding JObj by (intro recursive_call.intros)
  qed (use a in \<open>simp_all add: children_def\<close>)
qed

lemma recursive_call_size: "recursive_call p c \<Longrightarrow> size c < size p"
  by (simp add: recursive_call_children size_children)

lemma recursive_call_trancl_size: "tranclp recursive_call p c \<Longrightarrow> size c < size p"
  by (induction rule: tranclp_induct) (auto dest: recursive_call_size)

lemma calls_below:
  assumes "tranclp recurse_locations_extend_locations_rel x (Inl p)"
  shows "case x of
           Inl c \<Rightarrow> tranclp recursive_call p c
         | Inr (cs, acc) \<Rightarrow>
             \<exists>q. rtranclp recursive_call p q \<and> \<not> is_location q \<and> set cs \<subseteq> set (children q)"
  using assms
proof (induction rule: converse_tranclp_induct)
  case (base y)
  then show ?case
    by cases (auto simp: children_def is_location_def)
next
  case (step y z)
  from step.hyps(1) show ?case
  proof cases
    case (1 d x2 x5)
    with step.IH have "tranclp recursive_call p (JObj d)" by simp
    then have "rtranclp recursive_call p (JObj d)" by simp
    with 1 show ?thesis
      by (auto simp: children_def is_location_def)
  next
    case (2 child rest locations)
    with step.IH obtain q where q: "rtranclp recursive_call p q" "\<not> is_location q"
        "set (child # rest) \<subseteq> set (children q)"
      by auto
    then have "recursive_call q child"
      by (simp add: recursive_call_children)
    with q(1) have "tranclp recursive_call p child"
      by (rule rtranclp_into_tranclp1)
    with 2 show ?thesis by simp
  next
    case (3 child rest locations b)
    with step.IH show ?thesis by auto
  qed
qed

text \<open>
  Claim C7: \<^verbatim>\<open>_recurse_locations\<close> terminates on every input. The relation between a call
  and the calls it makes, as the definition of \<^const>\<open>recurse_locations\<close> and its loop
  gives it, is well-founded, so every argument is in the domain of the recursion; and every
  call of \<^const>\<open>recurse_locations\<close> that arises under a call on \<open>p\<close> is reached through
  members of \<^verbatim>\<open>nodes\<close> lists, each strictly smaller than the node that holds it. A
  chain of calls is finite whether or not the interpreter has stack for it: where it has not,
  the call ends with \<^verbatim>\<open>RecursionError\<close>.
\<close>

theorem recurse_locations_terminates:
  "wfP recurse_locations_extend_locations_rel \<and>
   (\<forall>x. recurse_locations_extend_locations_dom x) \<and>
   (\<forall>p c. tranclp recurse_locations_extend_locations_rel (Inl c) (Inl p) \<longrightarrow>
      tranclp recursive_call p c \<and> size c < size p) \<and>
   (\<forall>p c. recursive_call p c \<longrightarrow> c \<in> set (children p) \<and> size c < size p)"
proof (intro conjI allI impI)
  show "wfP recurse_locations_extend_locations_rel"
    by (rule wf_rel)
  show "recurse_locations_extend_locations_dom x" for x
    by (rule dom_all)
  show c: "tranclp recursive_call p c"
    if "tranclp recurse_locations_extend_locations_rel (Inl c) (Inl p)" for p c
    using calls_below [OF that] by simp
  show "size c < size p"
    if "tranclp recurse_locations_extend_locations_rel (Inl c) (Inl p)" for p c
    using c [OF that] by (rule recursive_call_trancl_size)
  show "c \<in> set (children p)" if "recursive_call p c" for p c
    using that by (simp add: recursive_call_children)
  show "size c < size p" if "recursive_call p c" for p c
    using that by (rule recursive_call_size)
qed



theorem recurse_locations_terminates_witness:
  "tranclp recurse_locations_extend_locations_rel
     (Inl (JObj [(''node_type'', JStr ''location''), (''id'', JNum 1)])) (Inl hierarchy_example) \<and>
   tranclp recursive_call hierarchy_example (JObj [(''node_type'', JStr ''location''), (''id'', JNum 1)]) \<and>
   size (JObj [(''node_type'', JStr ''location''), (''id'', JNum 1)]) < size hierarchy_example \<and>
   recurse_locations_extend_locations_dom (Inl hierarchy_example)"
proof -
  let ?c1 = "JObj [(''node_type'', JStr ''location''), (''id'', JNum 1)]"
  let ?c2 = "JObj [(''nodes'', JArr [JObj [(''node_type'', JStr ''location''), (''id'', JNum 2)]])]"
  have 1: "recurse_locations_extend_locations_rel (Inr ([?c1, ?c2], [])) (Inl hierarchy_example)"
    unfolding hierarchy_example_def
    by (rule recurse_locations_extend_locations_rel.intros(1)) simp_all
  have 2: "recurse_locations_extend_locations_rel (Inl ?c1) (Inr ([?c1, ?c2], []))"
    by (rule recurse_locations_extend_locations_rel.intros(2))
  from 2 1 have "tranclp recurse_locations_extend_locations_rel (Inl ?c1) (Inl hierarchy_example)"
    by (rule tranclp.intros(2) [OF tranclp.intros(1)])
  with recurse_locations_terminates show ?thesis by blast
qed

lemma map_of_dict_set: "map_of (dict_set ps k v) k = Some v"
  by (induction ps) auto

lemma dict_set_split:
  "\<exists>pre post. dict_set ps k v = pre @ [(k, v)] @ post \<and> k \<notin> fst ` set pre"
proof (induction ps)
  case Nil
  have "dict_set [] k v = [] @ [(k, v)] @ [] \<and> k \<notin> fst ` set []"
    by simp
  then show ?case by blast
next
  case (Cons p ps)
  obtain k' v' where p: "p = (k', v')" by (cases p)
  show ?case
  proof (cases "k' = k")
    case True
    then have "dict_set (p # ps) k v = [] @ [(k, v)] @ ps \<and> k \<notin> fst ` set []"
      by (simp add: p)
    then show ?thesis by blast
  next
    case False
    from Cons.IH obtain pre post where "dict_set ps k v = pre @ [(k, v)] @ post" "k \<notin> fst ` set pre"
      by blast
    then have "dict_set (p # ps) k v = (p # pre) @ [(k, v)] @ post \<and> k \<notin> fst ` set (p # pre)"
      using False by (auto simp: p)
    then show ?thesis by blast
  qed
qed

text \<open>
  Claim C6: \<^verbatim>\<open>managed_locations\<close> issues one GET, to the hierarchy URL of the business
  id with the cookie as its \<^verbatim>\<open>Cookie\<close> header, and returns
  \<^verbatim>\<open>_recurse_locations\<close> of the \<^verbatim>\<open>root_tier\<close> member of the response JSON, or the
  empty list when there is no such member.
\<close>

theorem managed_locations_cookie_request:
  "snd (managed_locations get business_id cookie) =
     [\<lparr>url = ''https://my2.singleplatform.com/hierarchy/list/business/'' @ business_id @ ''/'',
       headers = [(''Cookie'', cookie)]\<rparr>] \<and>
   (get \<lparr>url = ''https://my2.singleplatform.com/hierarchy/list/business/'' @ business_id @ ''/'',
         headers = [(''Cookie'', cookie)]\<rparr> = Inr resp \<and> json resp = Inr (JObj d) \<longrightarrow>
      (\<forall>data. map_of d ''root_tier'' = Some data \<longrightarrow>
         fst (managed_locations get business_id cookie) = recurse_locations data) \<and>
      (map_of d ''root_tier'' = None \<longrightarrow>
         fst (managed_locations get business_id cookie) = Inr []))"
  by (simp add: managed_locations_def Let_def)

theorem managed_locations_cookie_request_witness:
  "fst (managed_locations tier_example ''42'' ''sessionid=1'') = recurse_locations hierarchy_example \<and>
   fst (managed_locations tier_example ''7'' ''sessionid=1'') = Inr [] \<and>
   snd (managed_locations tier_example ''7'' ''sessionid=1'') =
     [\<lparr>url = ''https://my2.singleplatform.com/hierarchy/list/business/7/'',
       headers = [(''Cookie'', ''sessionid=1'')]\<rparr>]"
  using
    managed_locations_cookie_request [of tier_example "''42''" "''sessionid=1''"
      "\<lparr>status_code = 200, resp_text = [], json = Inr (JObj [(''root_tier'', hierarchy_example)])\<rparr>"
      "[(''root_tier'', hierarchy_example)]"]
    managed_locations_cookie_request [of tier_example "''7''" "''sessionid=1''"
      "\<lparr>status_code = 200, resp_text = [], json = Inr (JObj [(''count'', JNum 0)])\<rparr>"
      "[(''count'', JNum 0)]"]
  by (simp add: tier_example_def)

lemma get_checked_request:
  "snd (get_checked get u) = [\<lparr>url = u, headers = []\<rparr>]"
  by (simp add: get_checked_def Let_def)

lemma get_checked_result:
  "get \<lparr>url = u, headers = []\<rparr> = Inr resp \<Longrightarrow>
   fst (get_checked get u) = (if status_code resp = 200 then json resp else Inl (ValueError (resp_text resp)))"
  by (simp add: get_checked_def Let_def)

lemma get_checked_unfold:
  "(case get_checked get u of (res, reqs) \<Rightarrow> f res reqs) = f (fst (get_checked get u)) [\<lparr>url = u, headers = []\<rparr>]"
  by (simp add: case_prod_unfold get_checked_request)

text \<open>
  Claim C2: each of \<^verbatim>\<open>summary\<close>, \<^verbatim>\<open>menu\<close> and \<^verbatim>\<open>photos\<close> issues exactly one
  request; when its response has status 200 the outcome is what \<^verbatim>\<open>response.json()\<close>
  yields, unchanged, and otherwise it is a \<^verbatim>\<open>ValueError\<close> whose message is the body
  text of the response.
\<close>

theorem status_check:
  "(\<exists>req. fst (snd (summary get self location_id complete)) = [req] \<and>
      (\<forall>resp. get req = Inr resp \<longrightarrow>
         (status_code resp = 200 \<longrightarrow> fst (summary get self location_id complete) = json resp) \<and>
         (status_code resp \<noteq> 200 \<longrightarrow>
            fst (summary get self location_id complete) = Inl (ValueError (resp_text resp))))) \<and>
   (\<exists>req. fst (snd (menu get self location_id short)) = [req] \<and>
      (\<forall>resp. get req = Inr resp \<longrightarrow>
         (status_code resp = 200 \<longrightarrow> fst (menu get self location_id short) = json resp) \<and>
         (status_code resp \<noteq> 200 \<longrightarrow>
            fst (menu get self location_id short) = Inl (ValueError (resp_text resp))))) \<and>
   (\<exists>req. fst (snd (photos get self location_id max_height max_width image_type)) = [req] \<and>
      (\<forall>resp. get req = Inr resp \<longrightarrow>
         (status_code resp = 200 \<longrightarrow>
            fst (photos get self location_id max_height max_width image_type) = json resp) \<and>
         (status_code resp \<noteq> 200 \<longrightarrow>
            fst (photos get self location_id max_height max_width image_type)
              = Inl (ValueError (resp_text resp)))))"
proof (intro conjI)
  have c: "\<exists>req. [\<lparr>url = u, headers = []\<rparr>] = [req] \<and>
      (\<forall>resp. get req = Inr resp \<longrightarrow>
         (status_code resp = 200 \<longrightarrow> fst (get_checked get u) = json resp) \<and>
         (status_code resp \<noteq> 200 \<longrightarrow> fst (get_checked get u) = Inl (ValueError (resp_text resp))))" for u
    by (simp add: get_checked_result)
  show "\<exists>req. fst (snd (summary get self location_id complete)) = [req] \<and>
      (\<forall>resp. get req = Inr resp \<longrightarrow>
         (status_code resp = 200 \<longrightarrow> fst (summary get self location_id complete) = json resp) \<and>
         (status_code resp \<noteq> 200 \<longrightarrow>
            fst (summary get self location_id complete) = Inl (ValueError (resp_text resp))))"
    using c by (simp add: summary_def Let_def case_prod_unfold get_checked_request)
  show "\<exists>req. fst (snd (menu get self location_id short)) = [req] \<and>
      (\<forall>resp. get req = Inr resp \<longrightarrow>
         (status_code resp = 200 \<longrightarrow> fst (menu get self location_id short) = json resp) \<and>
         (status_code resp \<noteq> 200 \<longrightarrow>
            fst (menu get self location_id short) = Inl (ValueError (resp_text resp))))"
    using c by (simp add: menu_def Let_def case_prod_unfold get_checked_request)
  show "\<exists>req. fst (snd (photos get self location_id max_height max_width image_type)) = [req] \<and>
      (\<forall>resp. get req = Inr resp \<longrightarrow>
         (status_code resp = 200 \<longrightarrow>
            fst (photos get self location_id max_height max_width image_type) = json resp) \<and>
         (status_code resp \<noteq> 200 \<longrightarrow>
            fst (photos get self location_id max_height max_width image_type)
              = Inl (ValueError (resp_text resp))))"
    using c by (simp add: photos_def Let_def case_prod_unfold get_checked_request)
qed


theorem status_check_witness:
  "fst (summary not_found_example api_example ''x'' False) = Inl (ValueError ''Not Found'') \<and>
   fst (summary ok_example api_example ''x'' True) = Inr (JObj []) \<and>
   fst (menu not_found_example api_example ''x'' True) = Inl (ValueError ''Not Found'') \<and>
   fst (menu ok_example api_example ''x'' False) = Inr (JObj []) \<and>
   fst (photos not_found_example api_example ''x'' (Some 100) None (Some LOGO))
     = Inl (ValueError ''Not Found'') \<and>
   fst (photos ok_example api_example ''x'' None None None) = Inr (JObj []) \<and>
   length (fst (snd (summary not_found_example api_example ''x'' False))) = 1"
  using
    status_check [of not_found_example api_example "''x''" False True "Some 100" None "Some LOGO"]
    status_check [of ok_example api_example "''x''" True False None None None]
  by (auto simp: not_found_example_def ok_example_def)

subsection \<open>Evaluating the hash on concrete input\<close>

text \<open>
  Equations that let the simplifier compute with the definitions above: byte values by
  their bits, additions and rotations by comparisons and shifts instead of divisions.
\<close>

lemma char_of_eval:
  "char_of (n::nat) = Char (odd n) (odd (drop_bit 1 n)) (odd (drop_bit 2 n)) (odd (drop_bit 3 n))
     (odd (drop_bit 4 n)) (odd (drop_bit 5 n)) (odd (drop_bit 6 n)) (odd (drop_bit 7 n))"
  by (simp add: char_of_def bit_iff_odd_drop_bit)

lemma replicate_eval:
  "replicate (numeral k) x = x # replicate (pred_numeral k) x"
  by (simp add: numeral_eq_Suc)

lemma add32_eval:
  "add32 a b = (if a + b < 4294967296 then a + b
                else if a + b < 8589934592 then a + b - 4294967296
                else (a + b) mod 4294967296)"
proof -
  have "a + b < 8589934592 \<Longrightarrow> \<not> a + b < 4294967296 \<Longrightarrow> (a + b) mod 4294967296 = a + b - 4294967296"
    by (simp add: mod_if)
  then show ?thesis by (simp add: add32_def)
qed

lemma rotl32_eval:
  "rotl32 n x =
     (if x < 4294967296 \<and> n \<le> 32
      then push_bit n (x - push_bit (32 - n) (drop_bit (32 - n) x)) + drop_bit (32 - n) x
      else (x * 2 ^ n) mod 4294967296 + x div 2 ^ (32 - n))"
proof (cases "x < 4294967296 \<and> n \<le> 32")
  case True
  then have n: "n \<le> 32" by simp
  have 1: "(x * 2 ^ n) mod 2 ^ 32 = (x mod 2 ^ (32 - n)) * 2 ^ n"
  proof -
    have "2 ^ 32 = (2::nat) ^ (32 - n) * 2 ^ n"
      using n by (simp flip: power_add)
    then show ?thesis by (simp only: mult_mod_left mult_mod_right mod_mult_mult2 mult.commute)
  qed
  have 2: "x - 2 ^ (32 - n) * (x div 2 ^ (32 - n)) = x mod 2 ^ (32 - n)"
    by (simp add: minus_mult_div_eq_mod mult.commute)
  show ?thesis
    using True 1 2 by (simp add: rotl32_def push_bit_eq_mult drop_bit_eq_div mult.commute)
next
  case False
  then show ?thesis by (auto simp add: rotl32_def)
qed

lemma not32_eval:
  "not32 x = (if x < 4294967296 then 4294967295 - x else 4294967295 - x mod 4294967296)"
  by (simp add: not32_def)

lemma word_bytes_eval:
  "word_bytes w = [char_of (drop_bit 24 w), char_of (drop_bit 16 w), char_of (drop_bit 8 w), char_of w]"
  by (simp add: word_bytes_def drop_bit_eq_div)

lemma nth_window_eval:
  "(a0 # r0) ! 0 = a0"
  "(a0 # a1 # a2 # r2) ! 2 = a2"
  "(a0 # a1 # a2 # a3 # a4 # a5 # a6 # a7 # a8 # r8) ! 8 = a8"
  "(a0 # a1 # a2 # a3 # a4 # a5 # a6 # a7 # a8 # a9 # a10 # a11 # a12 # a13 # r13) ! 13 = a13"
  by simp_all

lemmas sha1_eval = nth_window_eval not32_eval char_of_eval replicate_eval sha1_def sha1_pad_def
  word_bytes_eval add32_eval rotl32_eval sha1_f_def sha1_k_def sha1_rounds.simps xor_pad_def

text \<open>The digest of the three bytes \<^verbatim>\<open>abc\<close>, as the standard gives it.\<close>

lemma sha1_abc:
  "sha1 ''abc'' =
     [CHR 0xA9, CHR 0x99, CHR 0x3E, CHR 0x36, CHR 0x47, CHR 0x06, CHR 0x81, CHR 0x6A, CHR 0xBA, CHR 0x3E,
      CHR 0x25, CHR 0x71, CHR 0x78, CHR 0x50, CHR 0xC2, CHR 0x6C, CHR 0x9C, CHR 0xD0, CHR 0xD8, CHR 0x9D]"
  by (simp add: sha1_eval del: nth_Cons_numeral)

text \<open>
  The signature of the URI \<^verbatim>\<open>/locations/x/?client=id\<close> under the secret
  \<^verbatim>\<open>secret\<close>, computed in the stages of the HMAC construction.
\<close>

lemma example_ipad:
  "xor_pad 0x36 (''secret'' @ replicate (64 - length ''secret'') (char_of (0 :: nat)))
     = ''ESUDSB'' @ replicate 58 (CHR ''6'')"
  by (simp add: xor_pad_def char_of_eval replicate_eval)

lemma example_opad:
  "xor_pad 0x5C (''secret'' @ replicate (64 - length ''secret'') (char_of (0 :: nat)))
     = ''/9?.9('' @ replicate 58 (CHR 0x5C)"
  by (simp add: xor_pad_def char_of_eval replicate_eval)

lemma example_inner:
  "sha1 ((''ESUDSB'' @ replicate 58 (CHR ''6'')) @ ''/locations/x/?client=id'') =
     [CHR 0x1B, CHR 0x60, CHR 0x67, CHR 0x74, CHR 0x83, CHR 0xF8, CHR 0xE6, CHR 0x47, CHR 0x34, CHR 0xB7,
      CHR 0x28, CHR 0x8E, CHR 0xAE, CHR 0x9F, CHR 0xE8, CHR 0x3E, CHR 0x72, CHR 0x0F, CHR 0x43, CHR 0x95]"
  by (simp add: sha1_eval del: nth_Cons_numeral)

lemma example_outer:
  "sha1 ((''/9?.9('' @ replicate 58 (CHR 0x5C)) @
     [CHR 0x1B, CHR 0x60, CHR 0x67, CHR 0x74, CHR 0x83, CHR 0xF8, CHR 0xE6, CHR 0x47, CHR 0x34, CHR 0xB7,
      CHR 0x28, CHR 0x8E, CHR 0xAE, CHR 0x9F, CHR 0xE8, CHR 0x3E, CHR 0x72, CHR 0x0F, CHR 0x43, CHR 0x95]) =
     [CHR 0x8E, CHR 0x92, CHR 0xB3, CHR 0x47, CHR 0xEC, CHR 0x4D, CHR 0xC1, CHR 0x77, CHR 0xB2, CHR 0xFF,
      CHR 0xA6, CHR 0xB0, CHR 0xD5, CHR 0xAD, CHR 0x48, CHR 0xD5, CHR 0x74, CHR 0xD0, CHR 0x6E, CHR 0x26]"
  by (simp add: sha1_eval del: nth_Cons_numeral)

lemma example_hmac:
  "hmac_sha1 ''secret'' ''/locations/x/?client=id'' =
     [CHR 0x8E, CHR 0x92, CHR 0xB3, CHR 0x47, CHR 0xEC, CHR 0x4D, CHR 0xC1, CHR 0x77, CHR 0xB2, CHR 0xFF,
      CHR 0xA6, CHR 0xB0, CHR 0xD5, CHR 0xAD, CHR 0x48, CHR 0xD5, CHR 0x74, CHR 0xD0, CHR 0x6E, CHR 0x26]"
proof -
  have k: "(if 64 < length ''secret'' then sha1 ''secret'' else ''secret'') = ''secret''"
    by simp
  show ?thesis
    unfolding hmac_sha1_def Let_def k example_ipad example_opad example_inner example_outer ..
qed

lemma example_signature:
  "generate_signature api_example ''/locations/x/?client=id'' = ''jpKzR+xNwXey/6aw1a1I1XTQbiY=''"
proof -
  have e: "encode ''secret'' = ''secret''" "encode ''/locations/x/?client=id'' = ''/locations/x/?client=id''"
    by (simp_all add: encode_def)
  show ?thesis
    unfolding generate_signature_def Let_def api_example_def
    by (simp add: e example_hmac b64_char_def b64_alphabet_def)
qed

lemmas url_eval = encode_def quote_plus_def quote_from_bytes_def quote_byte_def always_safe_def
  upper_hex_def urlencode_def HOST_def

lemma example_url:
  "generate_url api_example ''/locations/x/'' [(''client'', PStr ''id'')] =
     (''https://publishing-api.singleplatform.com/locations/x/?client=id&signature=jpKzR%2BxNwXey%2F6aw1a1I1XTQbiY%3D'',
      [(''client'', PStr ''id''), (''signature'', PBytes ''jpKzR+xNwXey/6aw1a1I1XTQbiY='')],
      ''generated url: https://publishing-api.singleplatform.com/locations/x/?client=id&signature=jpKzR%2BxNwXey%2F6aw1a1I1XTQbiY%3D'')"
proof -
  have u: "''/locations/x/'' @ ''?'' @ urlencode [(''client'', PStr ''id'')] = ''/locations/x/?client=id''"
    by (simp add: url_eval)
  show ?thesis
    unfolding generate_url_def Let_def u example_signature
    by (simp add: url_eval)
qed

text \<open>
  Claim C1: the signature is the Base64 encoding of the HMAC-SHA1 digest, keyed with the
  encoded client secret, of the encoded URI; and the URI that \<^verbatim>\<open>_generate_url\<close> signs
  is the path, a question mark and the encoding of the parameters as the caller passed
  them.
\<close>

theorem signature_is_hmac:
  "generate_signature self uri = b64encode (hmac_sha1 (encode (client_secret self)) (encode uri)) \<and>
   hmac_sha1 key msg =
     sha1 (xor_pad 0x5C ((if 64 < length key then sha1 key else key)
             @ replicate (64 - length (if 64 < length key then sha1 key else key)) (CHR 0x00))
           @ sha1 (xor_pad 0x36 ((if 64 < length key then sha1 key else key)
                     @ replicate (64 - length (if 64 < length key then sha1 key else key)) (CHR 0x00))
                   @ msg)) \<and>
   map_of (fst (snd (generate_url self path params))) ''signature''
     = Some (PBytes (generate_signature self (path @ ''?'' @ urlencode params)))"
  by (simp add: generate_signature_def generate_url_def hmac_sha1_def Let_def map_of_dict_set char_of_def)

text \<open>
  Claim C4: the URL is the fixed host, the path, a question mark and the encoding of the
  parameters after \<^verbatim>\<open>signature\<close> has been set; the signature is one of its
  \<^verbatim>\<open>key=value\<close> pairs.
\<close>

theorem url_host_and_signature:
  "fst (generate_url self path params)
     = ''https://publishing-api.singleplatform.com'' @ path @ ''?'' @ urlencode (fst (snd (generate_url self path params))) \<and>
   fst (snd (generate_url self path params))
     = dict_set params ''signature'' (PBytes (generate_signature self (path @ ''?'' @ urlencode params))) \<and>
   (\<exists>pre post.
      fst (snd (generate_url self path params))
        = pre @ [(''signature'', PBytes (generate_signature self (path @ ''?'' @ urlencode params)))] @ post \<and>
      fst (generate_url self path params)
        = ''https://publishing-api.singleplatform.com'' @ path @ ''?''
            @ join ''&'' (map urlencode_item pre
                @ [''signature='' @ quote_plus (generate_signature self (path @ ''?'' @ urlencode params)) []]
                @ map urlencode_item post))"
proof -
  let ?sig = "generate_signature self (path @ ''?'' @ urlencode params)"
  have q: "quote_plus (encode ''signature'') [] = ''signature''"
    by (simp add: quote_plus_def quote_from_bytes_def quote_byte_def always_safe_def encode_def)
  have p: "fst (snd (generate_url self path params)) = dict_set params ''signature'' (PBytes ?sig)"
    by (simp add: generate_url_def Let_def)
  have u: "fst (generate_url self path params)
      = ''https://publishing-api.singleplatform.com'' @ path @ ''?'' @ urlencode (dict_set params ''signature'' (PBytes ?sig))"
    by (simp add: generate_url_def Let_def HOST_def)
  obtain pre post where s: "dict_set params ''signature'' (PBytes ?sig) = pre @ [(''signature'', PBytes ?sig)] @ post"
    using dict_set_split by blast
  have "urlencode (pre @ [(''signature'', PBytes ?sig)] @ post)
      = join ''&'' (map urlencode_item pre @ [''signature='' @ quote_plus ?sig []] @ map urlencode_item post)"
    by (simp add: urlencode_def q)
  with p u s show ?thesis by auto
qed

text \<open>
  Claim C5: the signature depends on nothing but the client secret and the URI: two clients
  with the same secret compute the same signature for the same URI.
\<close>

theorem signature_deterministic:
  "client_secret a = client_secret b \<Longrightarrow> uri = uri' \<Longrightarrow>
   generate_signature a uri = generate_signature b uri'"
  by (simp add: generate_signature_def)

theorem signature_deterministic_witness:
  "client_secret \<lparr>client_id = ''one'', client_secret = ''secret''\<rparr>
     = client_secret \<lparr>client_id = ''two'', client_secret = ''secret''\<rparr> \<and>
   generate_signature \<lparr>client_id = ''one'', client_secret = ''secret''\<rparr> ''/locations/x/?client=id''
     = generate_signature \<lparr>client_id = ''two'', client_secret = ''secret''\<rparr> ''/locations/x/?client=id''"
  using signature_deterministic
    [of "\<lparr>client_id = ''one'', client_secret = ''secret''\<rparr>"
        "\<lparr>client_id = ''two'', client_secret = ''secret''\<rparr>"
        "''/locations/x/?client=id''" "''/locations/x/?client=id''"]
  by simp

lemma b64_char_in: "b64_char n \<in> set b64_alphabet"
proof -
  have "n mod 64 < length b64_alphabet"
    by (simp add: b64_alphabet_def)
  then show ?thesis
    unfolding b64_char_def by (rule nth_mem)
qed

lemma b64encode_chars: "set (b64encode x) \<subseteq> insert (CHR ''='') (set b64_alphabet)"
  by (induction x rule: b64encode.induct) (auto simp: b64_char_in)

lemma quote_byte_b64:
  "c \<in> insert (CHR ''='') (set b64_alphabet) \<Longrightarrow> quote_byte [] c = b64_escape c"
  by (auto simp: b64_alphabet_def quote_byte_def always_safe_def upper_hex_def b64_escape_def)

lemma b64_no_space: "CHR '' '' \<notin> insert (CHR ''='') (set b64_alphabet)"
  by (simp add: b64_alphabet_def)

lemma quote_plus_b64:
  assumes "set s \<subseteq> insert (CHR ''='') (set b64_alphabet)"
  shows "quote_plus s [] = concat (map b64_escape s)"
proof -
  have "CHR '' '' \<notin> set s"
    using assms b64_no_space by blast
  moreover have "map (quote_byte []) s = map b64_escape s"
  proof (rule map_cong [OF refl])
    fix c assume "c \<in> set s"
    with assms have "c \<in> insert (CHR ''='') (set b64_alphabet)" by blast
    then show "quote_byte [] c = b64_escape c" by (rule quote_byte_b64)
  qed
  then have "concat (map (quote_byte []) s) = concat (map b64_escape s)"
    by (rule arg_cong)
  ultimately show ?thesis
    by (simp add: quote_plus_def quote_from_bytes_def)
qed

lemma quote_byte_repr_head:
  "quote_byte [] (CHR ''b'') = ''b''" "quote_byte '' '' (CHR ''b'') = ''b''"
  "quote_byte [] (CHR 0x27) = ''%27''" "quote_byte '' '' (CHR 0x27) = ''%27''"
  "quote_byte [] (CHR 0x22) = ''%22''" "quote_byte '' '' (CHR 0x22) = ''%22''"
  by (simp_all add: quote_byte_def always_safe_def upper_hex_def)

lemma quote_from_bytes_repr_prefix:
  assumes "q = CHR 0x27 \<or> q = CHR 0x22" and "safe = [] \<or> safe = '' ''"
  shows "\<exists>r. quote_from_bytes (CHR ''b'' # q # bs) safe = ''b%2'' @ r \<and> r \<noteq> [] \<and> hd r \<in> {CHR ''7'', CHR ''2''}"
proof -
  have "quote_from_bytes (CHR ''b'' # q # bs) safe
      = quote_byte safe (CHR ''b'') @ quote_byte safe q @ quote_from_bytes bs safe"
    by (simp add: quote_from_bytes_def)
  moreover have "quote_byte safe (CHR ''b'') = ''b''"
    using assms(2) quote_byte_repr_head by blast
  moreover have "quote_byte safe q = ''%27'' \<or> quote_byte safe q = ''%22''"
    using assms quote_byte_repr_head by blast
  ultimately have "quote_from_bytes (CHR ''b'' # q # bs) safe = ''b%2'' @ (CHR ''7'' # quote_from_bytes bs safe)
      \<or> quote_from_bytes (CHR ''b'' # q # bs) safe = ''b%2'' @ (CHR ''2'' # quote_from_bytes bs safe)"
    by auto
  then show ?thesis
  proof
    assume "quote_from_bytes (CHR ''b'' # q # bs) safe = ''b%2'' @ (CHR ''7'' # quote_from_bytes bs safe)"
    then show ?thesis by (intro exI [of _ "CHR ''7'' # quote_from_bytes bs safe"]) simp
  next
    assume "quote_from_bytes (CHR ''b'' # q # bs) safe = ''b%2'' @ (CHR ''2'' # quote_from_bytes bs safe)"
    then show ?thesis by (intro exI [of _ "CHR ''2'' # quote_from_bytes bs safe"]) simp
  qed
qed

lemma quote_plus_repr_prefix:
  "\<exists>r. quote_plus (encode (bytes_repr s)) [] = ''b%2'' @ r \<and> r \<noteq> [] \<and> hd r \<in> {CHR ''7'', CHR ''2''}"
proof -
  define q where "q = (if CHR 0x27 \<in> set s \<and> CHR 0x22 \<notin> set s then CHR 0x22 else CHR 0x27)"
  have q: "q = CHR 0x27 \<or> q = CHR 0x22"
    by (simp add: q_def)
  have r: "bytes_repr s = CHR ''b'' # q # (concat (map (repr_byte q) s) @ [q])"
    by (simp add: bytes_repr_def Let_def q_def)
  have e: "encode (bytes_repr s) = CHR ''b'' # q # encode (concat (map (repr_byte q) s) @ [q])"
    using q by (auto simp: r encode_def)
  let ?bs = "encode (concat (map (repr_byte q) s) @ [q])"
  show ?thesis
  proof (cases "CHR '' '' \<in> set (CHR ''b'' # q # ?bs)")
    case False
    then have "quote_plus (encode (bytes_repr s)) [] = quote_from_bytes (CHR ''b'' # q # ?bs) []"
      by (simp add: e quote_plus_def)
    with quote_from_bytes_repr_prefix [OF q, of "[]" ?bs] show ?thesis by simp
  next
    case True
    from quote_from_bytes_repr_prefix [OF q, of "'' ''" ?bs]
    obtain r where r: "quote_from_bytes (CHR ''b'' # q # ?bs) '' '' = ''b%2'' @ r" "r \<noteq> []"
        "hd r \<in> {CHR ''7'', CHR ''2''}"
      by auto
    let ?f = "\<lambda>c. if c = CHR '' '' then CHR ''+'' else c"
    from True have "quote_plus (encode (bytes_repr s)) [] = map ?f (quote_from_bytes (CHR ''b'' # q # ?bs) '' '')"
      by (simp add: e quote_plus_def)
    also have "\<dots> = ''b%2'' @ map ?f r"
      by (simp add: r(1))
    finally have "quote_plus (encode (bytes_repr s)) [] = ''b%2'' @ map ?f r" .
    moreover have "map ?f r \<noteq> []" using r(2) by simp
    moreover have "hd (map ?f r) \<in> {CHR ''7'', CHR ''2''}"
      using r(2,3) by (cases r) auto
    ultimately show ?thesis by blast
  qed
qed

lemma b64_escape_prefix:
  assumes "set s \<subseteq> insert (CHR ''='') (set b64_alphabet)"
    and "concat (map b64_escape s) = ''b%2'' @ r" and "r \<noteq> []"
  shows "hd r \<notin> {CHR ''7'', CHR ''2''}"
proof (cases s)
  case Nil
  with assms show ?thesis by simp
next
  case (Cons c1 s1)
  note s = Cons
  show ?thesis
  proof (cases s1)
    case Nil
    with s assms show ?thesis by (auto simp: b64_escape_def split: if_splits)
  next
    case (Cons c2 s2)
    have "c2 \<in> insert (CHR ''='') (set b64_alphabet)"
      using assms(1) s Cons by simp
    then have "c2 \<noteq> CHR ''%''"
      by (auto simp: b64_alphabet_def)
    then show ?thesis
      using s Cons assms(2,3) by (auto simp: b64_escape_def split: if_splits)
  qed
qed

lemma quoted_b64_is_not_repr:
  assumes "set s \<subseteq> insert (CHR ''='') (set b64_alphabet)"
  shows "concat (map b64_escape s) \<noteq> quote_plus (encode (bytes_repr s)) []"
proof
  assume eq: "concat (map b64_escape s) = quote_plus (encode (bytes_repr s)) []"
  obtain r where r: "quote_plus (encode (bytes_repr s)) [] = ''b%2'' @ r" "r \<noteq> []"
      "hd r \<in> {CHR ''7'', CHR ''2''}"
    using quote_plus_repr_prefix by blast
  from eq r(1) have "concat (map b64_escape s) = ''b%2'' @ r" by simp
  from b64_escape_prefix [OF assms this r(2)] r(3) show False by simp
qed

lemma signature_chars:
  "set (generate_signature self uri) \<subseteq> insert (CHR ''='') (set b64_alphabet)"
  by (simp add: generate_signature_def Let_def b64encode_chars)

lemma quote_signature_key: "quote_plus (encode ''signature'') [] = ''signature''"
  by (simp add: quote_plus_def quote_from_bytes_def quote_byte_def always_safe_def encode_def)

text \<open>
  Claim C8, as stated: the \<^verbatim>\<open>signature\<close> parameter of the URL is the quoting of the
  \<^verbatim>\<open>b'...'\<close> literal of the signature. For the client secret \<^verbatim>\<open>secret\<close>, the path
  \<^verbatim>\<open>/locations/x/\<close> and the parameters \<^verbatim>\<open>{"client": "id"}\<close> the URL carries the
  Base64 text itself.
\<close>

theorem signature_repr_counterexample:
  "fst (generate_url api_example ''/locations/x/'' [(''client'', PStr ''id'')])
     = ''https://publishing-api.singleplatform.com/locations/x/?client=id&signature=jpKzR%2BxNwXey%2F6aw1a1I1XTQbiY%3D'' \<and>
   HOST @ ''/locations/x/'' @ ''?''
       @ urlencode_via_str (fst (snd (generate_url api_example ''/locations/x/'' [(''client'', PStr ''id'')])))
     = ''https://publishing-api.singleplatform.com/locations/x/?client=id&signature=b%27jpKzR%2BxNwXey%2F6aw1a1I1XTQbiY%3D%27'' \<and>
   fst (generate_url api_example ''/locations/x/'' [(''client'', PStr ''id'')])
     \<noteq> HOST @ ''/locations/x/'' @ ''?''
         @ urlencode_via_str (fst (snd (generate_url api_example ''/locations/x/'' [(''client'', PStr ''id'')])))"
proof -
  have r: "bytes_repr ''jpKzR+xNwXey/6aw1a1I1XTQbiY=''
      = [CHR ''b'', CHR 0x27] @ ''jpKzR+xNwXey/6aw1a1I1XTQbiY='' @ [CHR 0x27]"
    by (simp add: bytes_repr_def Let_def repr_byte_def)
  have v: "urlencode_via_str [(''client'', PStr ''id''), (''signature'', PBytes ''jpKzR+xNwXey/6aw1a1I1XTQbiY='')]
      = ''client=id&signature=b%27jpKzR%2BxNwXey%2F6aw1a1I1XTQbiY%3D%27''"
    unfolding urlencode_via_str_def by (simp add: r) (simp add: url_eval)
  show ?thesis
    by (simp add: example_url v HOST_def)
qed

text \<open>
  Claim C8, amended: the signature is a \<^verbatim>\<open>bytes\<close> object, stored as such in the
  parameters; \<^verbatim>\<open>urlencode\<close> quotes it directly, so the query parameter is the Base64
  text with \<^verbatim>\<open>+\<close>, \<^verbatim>\<open>/\<close> and \<^verbatim>\<open>=\<close> percent-escaped and nothing else changed, and it is
  not the quoting of the \<^verbatim>\<open>b'...'\<close> literal.
\<close>

theorem signature_param_is_quoted_base64:
  "map_of (fst (snd (generate_url self path params))) ''signature''
     = Some (PBytes (generate_signature self (path @ ''?'' @ urlencode params))) \<and>
   urlencode_item (''signature'', PBytes (generate_signature self (path @ ''?'' @ urlencode params)))
     = ''signature='' @ concat (map b64_escape (generate_signature self (path @ ''?'' @ urlencode params))) \<and>
   (\<exists>pre post.
      fst (snd (generate_url self path params))
        = pre @ [(''signature'', PBytes (generate_signature self (path @ ''?'' @ urlencode params)))] @ post \<and>
      fst (generate_url self path params)
        = ''https://publishing-api.singleplatform.com'' @ path @ ''?''
            @ join ''&'' (map urlencode_item pre
                @ [''signature='' @ concat (map b64_escape (generate_signature self (path @ ''?'' @ urlencode params)))]
                @ map urlencode_item post)) \<and>
   urlencode_item (''signature'', PBytes (generate_signature self (path @ ''?'' @ urlencode params)))
     \<noteq> ''signature='' @ quote_plus (encode (bytes_repr (generate_signature self (path @ ''?'' @ urlencode params)))) []"
proof -
  let ?sig = "generate_signature self (path @ ''?'' @ urlencode params)"
  have c: "set ?sig \<subseteq> insert (CHR ''='') (set b64_alphabet)"
    by (rule signature_chars)
  have i: "urlencode_item (''signature'', PBytes ?sig) = ''signature='' @ concat (map b64_escape ?sig)"
    by (simp only: urlencode_item.simps quote_signature_key quote_plus_b64 [OF c]) simp
  have p: "fst (snd (generate_url self path params)) = dict_set params ''signature'' (PBytes ?sig)"
    by (simp add: generate_url_def Let_def)
  have u: "fst (generate_url self path params)
      = ''https://publishing-api.singleplatform.com'' @ path @ ''?'' @ urlencode (dict_set params ''signature'' (PBytes ?sig))"
    by (simp add: generate_url_def Let_def HOST_def)
  obtain pre post where s: "dict_set params ''signature'' (PBytes ?sig) = pre @ [(''signature'', PBytes ?sig)] @ post"
    using dict_set_split by blast
  have "urlencode (pre @ [(''signature'', PBytes ?sig)] @ post)
      = join ''&'' (map urlencode_item pre @ [urlencode_item (''signature'', PBytes ?sig)] @ map urlencode_item post)"
    by (simp add: urlencode_def)
  then have j: "urlencode (pre @ [(''signature'', PBytes ?sig)] @ post)
      = join ''&'' (map urlencode_item pre @ [''signature='' @ concat (map b64_escape ?sig)] @ map urlencode_item post)"
    by (simp only: i)
  have n: "urlencode_item (''signature'', PBytes ?sig) \<noteq> ''signature='' @ quote_plus (encode (bytes_repr ?sig)) []"
    unfolding i using quoted_b64_is_not_repr [OF c] by simp
  have m: "map_of (fst (snd (generate_url self path params))) ''signature'' = Some (PBytes ?sig)"
    by (simp add: p map_of_dict_set)
  from p u s j have "\<exists>pre post.
      fst (snd (generate_url self path params)) = pre @ [(''signature'', PBytes ?sig)] @ post \<and>
      fst (generate_url self path params)
        = ''https://publishing-api.singleplatform.com'' @ path @ ''?''
            @ join ''&'' (map urlencode_item pre @ [''signature='' @ concat (map b64_escape ?sig)]
                @ map urlencode_item post)"
    by metis
  with m i n show ?thesis by blast
qed

theorem signature_param_is_quoted_base64_witness:
  "map_of (fst (snd (generate_url api_example ''/locations/x/'' [(''client'', PStr ''id'')]))) ''signature''
     = Some (PBytes ''jpKzR+xNwXey/6aw1a1I1XTQbiY='') \<and>
   urlencode_item (''signature'', PBytes ''jpKzR+xNwXey/6aw1a1I1XTQbiY='')
     = ''signature=jpKzR%2BxNwXey%2F6aw1a1I1XTQbiY%3D'' \<and>
   urlencode_item (''signature'', PBytes ''jpKzR+xNwXey/6aw1a1I1XTQbiY='')
     \<noteq> ''signature='' @ quote_plus (encode (bytes_repr ''jpKzR+xNwXey/6aw1a1I1XTQbiY='')) []"
proof -
  have u: "''/locations/x/'' @ ''?'' @ urlencode [(''client'', PStr ''id'')] = ''/locations/x/?client=id''"
    by (simp add: url_eval)
  have e: "concat (map b64_escape ''jpKzR+xNwXey/6aw1a1I1XTQbiY='') = ''jpKzR%2BxNwXey%2F6aw1a1I1XTQbiY%3D''"
    by (simp add: b64_escape_def)
  note inst = signature_param_is_quoted_base64
      [of api_example "''/locations/x/''" "[(''client'', PStr ''id'')]", unfolded u example_signature e]
  from inst have "map_of (fst (snd (generate_url api_example ''/locations/x/'' [(''client'', PStr ''id'')])))
      ''signature'' = Some (PBytes ''jpKzR+xNwXey/6aw1a1I1XTQbiY='')"
    and "urlencode_item (''signature'', PBytes ''jpKzR+xNwXey/6aw1a1I1XTQbiY='')
      = ''signature='' @ ''jpKzR%2BxNwXey%2F6aw1a1I1XTQbiY%3D''"
    and "urlencode_item (''signature'', PBytes ''jpKzR+xNwXey/6aw1a1I1XTQbiY='')
      \<noteq> ''signature='' @ quote_plus (encode (bytes_repr ''jpKzR+xNwXey/6aw1a1I1XTQbiY='')) []"
    by blast+
  then show ?thesis
    by (simp del: urlencode_item.simps)
qed

theorem signature_is_hmac_witness:
  "generate_signature api_example ''/locations/x/?client=id''
     = b64encode (hmac_sha1 ''secret'' ''/locations/x/?client=id'') \<and>
   generate_signature api_example ''/locations/x/?client=id'' = ''jpKzR+xNwXey/6aw1a1I1XTQbiY='' \<and>
   map_of (fst (snd (generate_url api_example ''/locations/x/'' [(''client'', PStr ''id'')]))) ''signature''
     = Some (PBytes (generate_signature api_example ''/locations/x/?client=id''))"
proof -
  have u: "''/locations/x/'' @ ''?'' @ urlencode [(''client'', PStr ''id'')] = ''/locations/x/?client=id''"
    by (simp add: url_eval)
  have e: "encode (client_secret api_example) = ''secret''"
      "encode ''/locations/x/?client=id'' = ''/locations/x/?client=id''"
    by (simp_all add: encode_def api_example_def)
  from signature_is_hmac [of api_example "''/locations/x/?client=id''" "''secret''" "''x''"
      "''/locations/x/''" "[(''client'', PStr ''id'')]"]
  show ?thesis
    unfolding u e using example_signature by simp
qed

theorem url_host_and_signature_witness:
  "fst (generate_url api_example ''/locations/x/'' [(''client'', PStr ''id'')])
     = ''https://publishing-api.singleplatform.com'' @ ''/locations/x/'' @ ''?''
         @ urlencode [(''client'', PStr ''id''), (''signature'', PBytes ''jpKzR+xNwXey/6aw1a1I1XTQbiY='')] \<and>
   fst (snd (generate_url api_example ''/locations/x/'' [(''client'', PStr ''id'')]))
     = [(''client'', PStr ''id''), (''signature'', PBytes ''jpKzR+xNwXey/6aw1a1I1XTQbiY='')] \<and>
   fst (generate_url api_example ''/locations/x/'' [(''client'', PStr ''id'')])
     = ''https://publishing-api.singleplatform.com/locations/x/?client=id&signature=jpKzR%2BxNwXey%2F6aw1a1I1XTQbiY%3D''"
proof -
  have u: "''/locations/x/'' @ ''?'' @ urlencode [(''client'', PStr ''id'')] = ''/locations/x/?client=id''"
    by (simp add: url_eval)
  from url_host_and_signature [of api_example "''/locations/x/''" "[(''client'', PStr ''id'')]"]
  have "fst (generate_url api_example ''/locations/x/'' [(''client'', PStr ''id'')])
     = ''https://publishing-api.singleplatform.com'' @ ''/locations/x/'' @ ''?''
         @ urlencode (fst (snd (generate_url api_example ''/locations/x/'' [(''client'', PStr ''id'')])))"
    and "fst (snd (generate_url api_example ''/locations/x/'' [(''client'', PStr ''id'')]))
     = dict_set [(''client'', PStr ''id'')] ''signature''
         (PBytes (generate_signature api_example (''/locations/x/'' @ ''?'' @ urlencode [(''client'', PStr ''id'')])))"
    by blast+
  then show ?thesis
    unfolding u example_signature by (simp add: url_eval)
qed

subsection \<open>Calling \<^verbatim>\<open>_generate_url\<close> twice on one dictionary\<close>

text \<open>
  After a call the dictionary holds the signature, and a second call on it signs the query
  string that contains this signature.
\<close>

lemma generate_url_again:
  "fst (snd (generate_url self path params))
     = dict_set params ''signature'' (PBytes (generate_signature self (path @ ''?'' @ urlencode params))) \<and>
   map_of (fst (snd (generate_url self path (fst (snd (generate_url self path params)))))) ''signature''
     = Some (PBytes (generate_signature self (path @ ''?'' @
         urlencode (dict_set params ''signature''
           (PBytes (generate_signature self (path @ ''?'' @ urlencode params)))))))"
  by (simp add: generate_url_def Let_def map_of_dict_set)

end
